theory Spec2Isabelle
  imports Main
begin

section \<open>Data model of resolve.py\<close>

text \<open>
  Record types are the numeric codes of \<open>dns.rdatatype\<close>; the source compares against
  both the symbolic constants and the literals 1, 28 and 15 (A, AAAA and MX).
\<close>

abbreviation (input) RT_A :: nat where "RT_A \<equiv> Suc 0"
abbreviation (input) RT_NS :: nat where "RT_NS \<equiv> 2"
abbreviation (input) RT_CNAME :: nat where "RT_CNAME \<equiv> 5"
abbreviation (input) RT_SOA :: nat where "RT_SOA \<equiv> 6"
abbreviation (input) RT_MX :: nat where "RT_MX \<equiv> 15"
abbreviation (input) RT_AAAA :: nat where "RT_AAAA \<equiv> 28"

abbreviation (input) NOERROR :: nat where "NOERROR \<equiv> 0"

text \<open>
  One resource record's data. \<open>rd_text\<close> is what \<open>str(rdata)\<close> gives (an address for
  A and AAAA, the target name for NS and CNAME); \<open>preference\<close> and \<open>exchange\<close> are read
  only from records of type MX, \<open>exchange\<close> holding \<open>str(answer.exchange)\<close>.
\<close>

record rdata =
  rdtype :: nat
  rd_text :: string
  preference :: int
  exchange :: string

text \<open>An RRset: owner name, type, and the records one iterates over.\<close>

record rrset =
  rr_name :: string
  rr_rdtype :: nat
  rr_items :: "rdata list"

record message =
  rcode :: nat
  answer :: "rrset list"
  authority :: "rrset list"
  additional :: "rrset list"

text \<open>\<open>dns.message.Message()\<close>: every section empty.\<close>

definition Message :: message where
  "Message = \<lparr>rcode = NOERROR, answer = [], authority = [], additional = []\<rparr>"

text \<open>
  The transport \<open>dns.query.udp(query, server, 3)\<close> either returns a parsed message or
  raises \<open>Timeout\<close> or another \<open>DNSException\<close>. A query is (name, type, server); the
  transport may answer differently over time, so its reply depends on the queries sent
  so far as well.
\<close>

datatype reply = Reply message | Timeout | DNSException

type_synonym query = "string \<times> nat \<times> string"

type_synonym transport = "query list \<Rightarrow> query \<Rightarrow> reply"

text \<open>Exceptions that no handler of the program catches.\<close>

datatype error = AttributeError | IndexError | UnboundLocalError | KeyError

text \<open>Values stored in the dictionaries handed to \<open>print_results\<close>.\<close>

datatype pyval = PStr string | PInt int | PName string | PRdata rdata

type_synonym entry = "(string \<times> pyval) list"

type_synonym record_map = "(string \<times> entry list) list"

text \<open>
  \<open>my_dictionary\<close>: a dict with two extra attributes, \<open>key\<close> and \<open>value\<close>, that
  \<open>collect_results\<close> sets before calling \<open>add\<close> (here \<open>dict_add\<close>).
\<close>

record my_dictionary =
  dc_items :: "string \<rightharpoonup> record_map"
  dc_key :: "string option"
  dc_value :: "record_map option"

definition dict_add :: "my_dictionary \<Rightarrow> string \<Rightarrow> record_map \<Rightarrow> my_dictionary" where
  "dict_add self k v = self\<lparr>dc_items := (dc_items self)(k \<mapsto> v)\<rparr>"

text \<open>
  The state of a run: every query sent so far, every line printed so far, and the one
  \<open>my_dictionary\<close> object that \<open>main\<close> creates (the parameters \<open>domaincache\<close> and \<open>dc\<close>
  of the source all refer to it).
\<close>

record state =
  queries :: "query list"
  out :: "string list"
  dc :: my_dictionary

text \<open>
  A computation returns \<open>None\<close> when the recursion is deeper than the fuel allows, and
  otherwise the state it leaves together with either the exception that escaped or the
  value returned.
\<close>

type_synonym 'a run = "((error + 'a) \<times> state) option"

definition return :: "'a \<Rightarrow> state \<Rightarrow> 'a run" where
  "return x st = Some (Inr x, st)"

definition raise :: "error \<Rightarrow> state \<Rightarrow> 'a run" where
  "raise e st = Some (Inl e, st)"

definition bind :: "'a run \<Rightarrow> ('a \<Rightarrow> state \<Rightarrow> 'b run) \<Rightarrow> 'b run" where
  "bind m f =
     (case m of
        None \<Rightarrow> None
      | Some (Inl e, st) \<Rightarrow> Some (Inl e, st)
      | Some (Inr x, st) \<Rightarrow> f x st)"

definition ROOT_SERVERS :: "string list" where
  "ROOT_SERVERS =
     [''198.41.0.4'', ''199.9.14.201'', ''192.33.4.12'', ''199.7.91.13'',
      ''192.203.230.10'', ''192.5.5.241'', ''192.112.36.4'', ''198.97.190.53'',
      ''192.36.148.17'', ''192.58.128.30'', ''193.0.14.129'', ''199.7.83.42'',
      ''202.12.27.33'']"

section \<open>The referral walker \<open>lookup_iter\<close> and the root driver \<open>lookup\<close>\<close>

text \<open>
  The loops of \<open>lookup_iter\<close> take the two calls they make as parameters:
  \<open>walk server found\<close> is \<open>lookup_iter(target_name, qtype, server, found, dc)\<close> and
  \<open>resolve name\<close> is \<open>lookup(name, dns.rdatatype.A, dc)\<close>. Each loop runs over the
  section of the response that was current when the loop started, while \<open>response\<close> and
  \<open>found\<close> are reassigned inside.
\<close>

type_synonym walker = "string \<Rightarrow> bool \<Rightarrow> state \<Rightarrow> (message \<times> bool) run"

type_synonym resolver = "string \<Rightarrow> state \<Rightarrow> message run"

text \<open>\<open>for addx in add:\<close> (lines 145 to 151).\<close>

fun additional_rdatas ::
  "walker \<Rightarrow> rdata list \<Rightarrow> message \<Rightarrow> bool \<Rightarrow> state \<Rightarrow> (message \<times> bool) run" where
  "additional_rdatas walk [] response found st = return (response, found) st"
| "additional_rdatas walk (addx # rest) response found st =
     (if rdtype addx = RT_A then
        bind (walk (rd_text addx) found st) (\<lambda>(response', found') st'.
          if found' then return (response', found') st'
          else additional_rdatas walk rest response' found' st')
      else if found then return (response, found) st
      else additional_rdatas walk rest response found st)"

text \<open>\<open>for add in response.additional:\<close> (lines 143 to 153).\<close>

fun additional_rrsets ::
  "walker \<Rightarrow> rrset list \<Rightarrow> message \<Rightarrow> bool \<Rightarrow> state \<Rightarrow> (message \<times> bool) run" where
  "additional_rrsets walk [] response found st = return (response, found) st"
| "additional_rrsets walk (add # rest) response found st =
     bind (additional_rdatas walk (rr_items add) response found st)
       (\<lambda>(response', found') st'.
          if found' then return (response', found') st'
          else additional_rrsets walk rest response' found' st')"

text \<open>
  \<open>ns_response.answer[0][0]\<close> and \<open>response.answer[0][0]\<close>: the first record of the
  first RRset of the answer section, \<open>IndexError\<close> when either list is empty.
\<close>

definition first_answer :: "message \<Rightarrow> error + rdata" where
  "first_answer m =
     (case answer m of
        [] \<Rightarrow> Inl IndexError
      | rs # _ \<Rightarrow> (case rr_items rs of [] \<Rightarrow> Inl IndexError | rd # _ \<Rightarrow> Inr rd))"

text \<open>
  \<open>for authx in auth:\<close> (lines 158 to 167). Only the SOA branch leaves this loop early;
  after an NS record the loop goes on to the next record whatever \<open>found\<close> is.
\<close>

fun authority_rdatas ::
  "resolver \<Rightarrow> walker \<Rightarrow> rdata list \<Rightarrow> message \<Rightarrow> bool \<Rightarrow> state \<Rightarrow> (message \<times> bool) run"
  where
  "authority_rdatas resolve walk [] response found st = return (response, found) st"
| "authority_rdatas resolve walk (authx # rest) response found st =
     (if rdtype authx = RT_NS then
        bind (resolve (rd_text authx) st) (\<lambda>ns_response st1.
          case first_answer ns_response of
            Inl e \<Rightarrow> raise e st1
          | Inr rd \<Rightarrow>
              bind (walk (rd_text rd) found st1) (\<lambda>(response', found') st2.
                authority_rdatas resolve walk rest response' found' st2))
      else if rdtype authx = RT_SOA then return (response, True) st
      else authority_rdatas resolve walk rest response found st)"

text \<open>\<open>for auth in response.authority:\<close> (lines 156 to 169).\<close>

fun authority_rrsets ::
  "resolver \<Rightarrow> walker \<Rightarrow> rrset list \<Rightarrow> message \<Rightarrow> bool \<Rightarrow> state \<Rightarrow> (message \<times> bool) run"
  where
  "authority_rrsets resolve walk [] response found st = return (response, found) st"
| "authority_rrsets resolve walk (auth # rest) response found st =
     bind (authority_rdatas resolve walk (rr_items auth) response found st)
       (\<lambda>(response', found') st'.
          if found' then return (response', found') st'
          else authority_rrsets resolve walk rest response' found' st')"

text \<open>
  \<open>for server in ROOT_SERVERS:\<close> in \<open>lookup\<close> (lines 105 to 123). \<open>prev\<close> is the value
  of the variable \<open>response\<close> before the iteration, unbound before the first one;
  \<open>restart name\<close> is the call \<open>lookup(name, qtype, dc)\<close> of line 117. The flag returned
  by one walk is the flag passed to the next.
\<close>

fun lookup_servers ::
  "walker \<Rightarrow> resolver \<Rightarrow> nat \<Rightarrow> string list \<Rightarrow> message option \<Rightarrow> bool \<Rightarrow> state \<Rightarrow> message run"
  where
  "lookup_servers walk restart qtype [] prev found st =
     (case prev of None \<Rightarrow> raise UnboundLocalError st | Some response \<Rightarrow> return response st)"
| "lookup_servers walk restart qtype (server # rest) prev found st =
     bind (walk server found st) (\<lambda>(response, found') st'.
       case answer response of
         top_rrset # _ \<Rightarrow>
           if rr_rdtype top_rrset = RT_CNAME \<and> qtype \<noteq> RT_CNAME then
             (case first_answer response of
                Inl e \<Rightarrow> raise e st'
              | Inr first_resp \<Rightarrow> restart (rd_text first_resp) st')
           else return response st'
       | [] \<Rightarrow>
           (case authority response of
              auth # _ \<Rightarrow>
                if rr_rdtype auth = RT_SOA then return response st'
                else lookup_servers walk restart qtype rest (Some response) found' st'
            | [] \<Rightarrow> lookup_servers walk restart qtype rest (Some response) found' st'))"

text \<open>
  \<open>lookup\<close> and \<open>lookup_iter\<close> call each other without a bound in the source; the first
  argument after the transport bounds the depth of the calls. Names are kept as their
  text, so \<open>dns.name.from_text\<close> and \<open>str\<close> on a name change nothing. A response whose
  rcode is not NOERROR is replaced by the integer constant \<open>dns.rcode.NXDOMAIN\<close>, and
  reading \<open>.answer\<close> from that raises \<open>AttributeError\<close>, which neither handler catches.
\<close>

fun lookup :: "transport \<Rightarrow> nat \<Rightarrow> string \<Rightarrow> nat \<Rightarrow> state \<Rightarrow> message run"
  and lookup_iter ::
    "transport \<Rightarrow> nat \<Rightarrow> string \<Rightarrow> nat \<Rightarrow> string \<Rightarrow> bool \<Rightarrow> state \<Rightarrow> (message \<times> bool) run"
  where
  "lookup udp 0 target_name qtype st = None"
| "lookup udp (Suc n) target_name qtype st =
     lookup_servers (lookup_iter udp n target_name qtype) (\<lambda>t. lookup udp n t qtype)
       qtype ROOT_SERVERS None False st"
| "lookup_iter udp 0 target_name qtype server found st = None"
| "lookup_iter udp (Suc n) target_name qtype server found st =
     (let outbound_query = (target_name, qtype, server);
          st1 = st\<lparr>queries := queries st @ [outbound_query]\<rparr>
      in case udp (queries st) outbound_query of
           Timeout \<Rightarrow>
             return (Message, False)
               (st1\<lparr>out := out st1 @ [''Search longer than 3 seconds...waiting...'']\<rparr>)
         | DNSException \<Rightarrow>
             return (Message, False) (st1\<lparr>out := out st1 @ [''Invalid query...'']\<rparr>)
         | Reply response \<Rightarrow>
             if rcode response \<noteq> NOERROR then raise AttributeError st1
             else if answer response \<noteq> [] then return (response, True) st1
             else if additional response \<noteq> [] then
               additional_rrsets (lookup_iter udp n target_name qtype)
                 (additional response) response found st1
             else if authority response \<noteq> [] \<and> \<not> found then
               authority_rrsets (\<lambda>t. lookup udp n t RT_A)
                 (lookup_iter udp n target_name qtype)
                 (authority response) response found st1
             else return (response, found) st1)"

section \<open>The result collector, the printer and \<open>main\<close>\<close>

text \<open>
  The four loops of \<open>collect_results\<close> (lines 55 to 84). The CNAME loop appends every
  record of the answer section and stores the record itself under \<open>name\<close>; the other
  three keep the records of one type and store the owner name of their RRset.
\<close>

definition cname_entries :: "string \<Rightarrow> message \<Rightarrow> entry list" where
  "cname_entries name response =
     concat (map (\<lambda>answers.
        map (\<lambda>answer. [(''name'', PRdata answer), (''alias'', PStr name)]) (rr_items answers))
       (answer response))"

definition address_entries :: "nat \<Rightarrow> message \<Rightarrow> entry list" where
  "address_entries t response =
     concat (map (\<lambda>answers.
        map (\<lambda>answer. [(''name'', PName (rr_name answers)), (''address'', PStr (rd_text answer))])
          (filter (\<lambda>answer. rdtype answer = t) (rr_items answers)))
       (answer response))"

definition mx_entries :: "message \<Rightarrow> entry list" where
  "mx_entries response =
     concat (map (\<lambda>answers.
        map (\<lambda>answer. [(''name'', PName (rr_name answers)),
                        (''preference'', PInt (preference answer)),
                        (''exchange'', PStr (exchange answer))])
          (filter (\<lambda>answer. rdtype answer = RT_MX) (rr_items answers)))
       (answer response))"

text \<open>
  \<open>collect_results\<close>: four lookups in the order CNAME, A, AAAA, MX, then the record map
  is built and stored in the cache under the name as it was typed.
\<close>

definition collect_results :: "transport \<Rightarrow> nat \<Rightarrow> string \<Rightarrow> state \<Rightarrow> record_map run" where
  "collect_results udp n name st =
     bind (lookup udp n name RT_CNAME st) (\<lambda>response1 st1.
     bind (lookup udp n name RT_A st1) (\<lambda>response2 st2.
     bind (lookup udp n name RT_AAAA st2) (\<lambda>response3 st3.
     bind (lookup udp n name RT_MX st3) (\<lambda>response4 st4.
       let full_response =
             [(''CNAME'', cname_entries name response1),
              (''A'', address_entries RT_A response2),
              (''AAAA'', address_entries RT_AAAA response3),
              (''MX'', mx_entries response4)];
           domaincache = (dc st4)\<lparr>dc_key := Some name, dc_value := Some full_response\<rparr>
       in return full_response (st4\<lparr>dc := dict_add domaincache name full_response\<rparr>)))))"

text \<open>
  A format string of \<open>FORMATS\<close> as its pieces: literal text and the fields that
  \<open>str.format\<close> fills in from the keyword arguments, \<open>KeyError\<close> when one is missing.
\<close>

datatype piece = Lit string | Field string

definition FORMATS :: "(string \<times> piece list) list" where
  "FORMATS =
     [(''CNAME'', [Field ''alias'', Lit '' is an alias for '', Field ''name'']),
      (''A'', [Field ''name'', Lit '' has address '', Field ''address'']),
      (''AAAA'', [Field ''name'', Lit '' has IPv6 address '', Field ''address'']),
      (''MX'', [Field ''name'', Lit '' mail is handled by '', Field ''preference'', Lit '' '',
               Field ''exchange''])]"

function str_nat :: "nat \<Rightarrow> string" where
  "str_nat n =
     (if n < 10 then [''0123456789'' ! n]
      else str_nat (n div 10) @ [''0123456789'' ! (n mod 10)])"
  by pat_completeness auto
termination
  by (relation "measure (\<lambda>n. n)") auto

declare str_nat.simps [simp del]

definition str_int :: "int \<Rightarrow> string" where
  "str_int i = (if i < 0 then ''-'' @ str_nat (nat (- i)) else str_nat (nat i))"

fun py_str :: "pyval \<Rightarrow> string" where
  "py_str (PStr s) = s"
| "py_str (PInt i) = str_int i"
| "py_str (PName s) = s"
| "py_str (PRdata r) = rd_text r"

fun format :: "piece list \<Rightarrow> entry \<Rightarrow> error + string" where
  "format [] result = Inr []"
| "format (Lit s # ps) result =
     (case format ps result of Inl e \<Rightarrow> Inl e | Inr t \<Rightarrow> Inr (s @ t))"
| "format (Field k # ps) result =
     (case map_of result k of
        None \<Rightarrow> Inl KeyError
      | Some v \<Rightarrow> (case format ps result of Inl e \<Rightarrow> Inl e | Inr t \<Rightarrow> Inr (py_str v @ t)))"

text \<open>\<open>results.get(rtype, [])\<close>.\<close>

definition results_get :: "record_map \<Rightarrow> string \<Rightarrow> entry list" where
  "results_get results rtype = (case map_of results rtype of None \<Rightarrow> [] | Some rs \<Rightarrow> rs)"

text \<open>\<open>for result in results.get(rtype, []): print(fmt_str.format(**result))\<close>.\<close>

fun print_entries :: "piece list \<Rightarrow> entry list \<Rightarrow> state \<Rightarrow> unit run" where
  "print_entries fmt_str [] st = return () st"
| "print_entries fmt_str (result # rest) st =
     (case format fmt_str result of
        Inl e \<Rightarrow> raise e st
      | Inr line \<Rightarrow> print_entries fmt_str rest (st\<lparr>out := out st @ [line]\<rparr>))"

fun print_formats :: "(string \<times> piece list) list \<Rightarrow> record_map \<Rightarrow> state \<Rightarrow> unit run" where
  "print_formats [] results st = return () st"
| "print_formats ((rtype, fmt_str) # rest) results st =
     bind (print_entries fmt_str (results_get results rtype) st)
       (\<lambda>_ st'. print_formats rest results st')"

definition print_results :: "record_map \<Rightarrow> state \<Rightarrow> unit run" where
  "print_results results st = print_formats FORMATS results st"

text \<open>
  The body of the loop of \<open>main\<close> prints, in both branches, one record map:
  \<open>main_lookup\<close> is that map, the cached one when \<open>dict_obj.get\<close> gives a true value
  (a dict that is not empty) and the freshly collected one otherwise.
\<close>

definition main_lookup :: "transport \<Rightarrow> nat \<Rightarrow> string \<Rightarrow> state \<Rightarrow> record_map run" where
  "main_lookup udp n a_domain_name st =
     (case dc_items (dc st) a_domain_name of
        None \<Rightarrow> collect_results udp n a_domain_name st
      | Some cache \<Rightarrow>
          if cache \<noteq> [] then return cache st
          else collect_results udp n a_domain_name st)"

definition main_name :: "transport \<Rightarrow> nat \<Rightarrow> string \<Rightarrow> state \<Rightarrow> unit run" where
  "main_name udp n a_domain_name st =
     bind (main_lookup udp n a_domain_name st) print_results"

fun main_names :: "transport \<Rightarrow> nat \<Rightarrow> string list \<Rightarrow> state \<Rightarrow> unit run" where
  "main_names udp n [] st = return () st"
| "main_names udp n (a_domain_name # rest) st =
     bind (main_name udp n a_domain_name st) (\<lambda>_ st'. main_names udp n rest st')"

text \<open>The state \<open>main\<close> starts from: nothing sent, nothing printed, an empty dictionary.\<close>

definition initial_state :: state where
  "initial_state =
     \<lparr>queries = [], out = [],
      dc = \<lparr>dc_items = Map.empty, dc_key = None, dc_value = None\<rparr>\<rparr>"

definition main :: "transport \<Rightarrow> nat \<Rightarrow> string list \<Rightarrow> unit run" where
  "main udp n names = main_names udp n names initial_state"

section \<open>Notions used to state the properties\<close>

text \<open>
  \<open>grows q st st'\<close>: from \<open>st\<close> to \<open>st'\<close> the dictionary is untouched, the printed lines
  are only extended, and the queries are only extended, by queries of type \<open>q\<close> or
  of type A. Every run of \<open>lookup\<close> and of \<open>lookup_iter\<close> for type \<open>q\<close> is such a change,
  whether it returns or raises.
\<close>

definition grows :: "nat \<Rightarrow> state \<Rightarrow> state \<Rightarrow> bool" where
  "grows q st st' \<longleftrightarrow>
     dc st' = dc st \<and>
     (\<exists>qs. queries st' = queries st @ qs \<and> (\<forall>x\<in>set qs. fst (snd x) = q \<or> fst (snd x) = RT_A)) \<and>
     (\<exists>ls. out st' = out st @ ls)"

text \<open>\<open>keeps R m st\<close>: if the run \<open>m\<close> started in \<open>st\<close> ends at all, it ends in a state related to \<open>st\<close>.\<close>

definition keeps :: "(state \<Rightarrow> state \<Rightarrow> bool) \<Rightarrow> 'a run \<Rightarrow> state \<Rightarrow> bool" where
  "keeps R m st \<longleftrightarrow> (\<forall>r st'. m = Some (r, st') \<longrightarrow> R st st')"

text \<open>
  In \<open>lookup\<close>, a response neither returns nor breaks the loop over the root servers when
  its answer section is empty and its authority section does not start with an SOA RRset.
\<close>

definition inconclusive :: "message \<Rightarrow> bool" where
  "inconclusive response \<longleftrightarrow>
     answer response = [] \<and>
     (case authority response of [] \<Rightarrow> True | auth # _ \<Rightarrow> rr_rdtype auth \<noteq> RT_SOA)"

text \<open>
  \<open>pass_servers walk servers prev found st\<close> walks the servers in order, handing each
  walk the flag and the state the one before left, as long as every walk returns an
  inconclusive response; it gives the last response, the flag and the state reached, and
  \<open>None\<close> as soon as a walk raises, runs out of fuel or returns anything conclusive.
\<close>

fun pass_servers ::
  "walker \<Rightarrow> string list \<Rightarrow> message option \<Rightarrow> bool \<Rightarrow> state \<Rightarrow>
     (message option \<times> bool \<times> state) option" where
  "pass_servers walk [] prev found st = Some (prev, found, st)"
| "pass_servers walk (server # rest) prev found st =
     (case walk server found st of
        Some (Inr (response, found'), st') \<Rightarrow>
          if inconclusive response then pass_servers walk rest (Some response) found' st'
          else None
      | _ \<Rightarrow> None)"

text \<open>\<open>sent qs ls st\<close>: the state \<open>st\<close> after the queries \<open>qs\<close> were sent and the lines \<open>ls\<close> printed.\<close>

definition sent :: "query list \<Rightarrow> string list \<Rightarrow> state \<Rightarrow> state" where
  "sent qs ls st = st\<lparr>queries := queries st @ qs, out := out st @ ls\<rparr>"

section \<open>Example servers\<close>

definition mk_rd :: "nat \<Rightarrow> string \<Rightarrow> rdata" where
  "mk_rd t s = \<lparr>rdtype = t, rd_text = s, preference = 0, exchange = []\<rparr>"

definition mk_mx :: "int \<Rightarrow> string \<Rightarrow> rdata" where
  "mk_mx p x = \<lparr>rdtype = RT_MX, rd_text = str_int p @ '' '' @ x, preference = p, exchange = x\<rparr>"

definition mk_rrset :: "string \<Rightarrow> nat \<Rightarrow> rdata list \<Rightarrow> rrset" where
  "mk_rrset owner t items = \<lparr>rr_name = owner, rr_rdtype = t, rr_items = items\<rparr>"

definition answer_msg :: "rrset list \<Rightarrow> message" where
  "answer_msg ans = \<lparr>rcode = NOERROR, answer = ans, authority = [], additional = []\<rparr>"

definition referral_msg :: "rrset list \<Rightarrow> rrset list \<Rightarrow> message" where
  "referral_msg auth addl = \<lparr>rcode = NOERROR, answer = [], authority = auth, additional = addl\<rparr>"

text \<open>No server ever replies.\<close>

definition udp_timeout :: transport where
  "udp_timeout h q = Timeout"

text \<open>Every server replies SERVFAIL (rcode 2) with empty sections.\<close>

definition udp_servfail :: transport where
  "udp_servfail h q = Reply \<lparr>rcode = 2, answer = [], authority = [], additional = []\<rparr>"

text \<open>
  The first root server refers \<open>example.com.\<close> to the nameservers \<open>nss\<close> of \<open>com.\<close> with the
  additional section \<open>addl\<close>, and knows the addresses of \<open>ns1.example.net.\<close> (192.0.2.1)
  and \<open>ns2.example.net.\<close> (192.0.2.2) itself. The server 192.0.2.1 answers every question
  with the address 203.0.113.5; nobody else replies.
\<close>

definition udp_referral :: "string list \<Rightarrow> rrset list \<Rightarrow> transport" where
  "udp_referral nss addl h q =
     (case q of (qname, qtype, server) \<Rightarrow>
        if server = ''198.41.0.4'' then
          if qname = ''example.com.'' then
            Reply (referral_msg [mk_rrset ''com.'' RT_NS (map (mk_rd RT_NS) nss)] addl)
          else if qname = ''ns1.example.net.'' then
            Reply (answer_msg [mk_rrset qname RT_A [mk_rd RT_A ''192.0.2.1'']])
          else if qname = ''ns2.example.net.'' then
            Reply (answer_msg [mk_rrset qname RT_A [mk_rd RT_A ''192.0.2.2'']])
          else Timeout
        else if server = ''192.0.2.1'' then
          Reply (answer_msg [mk_rrset qname RT_A [mk_rd RT_A ''203.0.113.5'']])
        else Timeout)"

text \<open>
  The first root server never replies. The second one, 199.9.14.201, answers itself:
  \<open>alias.example.\<close> is a CNAME for \<open>host.example.\<close>, \<open>host.example.\<close> has the address
  192.0.2.9 and the mail exchanger \<open>10 mail.example.\<close>, and for anything else the zone's
  SOA comes back in the authority section. Nobody else replies.
\<close>

definition udp_zone :: transport where
  "udp_zone h q =
     (case q of (qname, qtype, server) \<Rightarrow>
        if server = ''199.9.14.201'' then
          if qname = ''alias.example.'' then
            Reply (answer_msg [mk_rrset qname RT_CNAME [mk_rd RT_CNAME ''host.example.'']])
          else if qname = ''host.example.'' \<and> qtype = RT_A then
            Reply (answer_msg [mk_rrset qname RT_A [mk_rd RT_A ''192.0.2.9'']])
          else if qname = ''host.example.'' \<and> qtype = RT_MX then
            Reply (answer_msg [mk_rrset qname RT_MX [mk_mx 10 ''mail.example.'']])
          else
            Reply (referral_msg
              [mk_rrset ''example.'' RT_SOA [mk_rd RT_SOA ''ns.example. admin.example. 1 2 3 4 5'']]
              [])
        else Timeout)"

section \<open>Properties\<close>

lemma bind_SomeD:
  "bind m f = Some (r, st') \<Longrightarrow>
     (\<exists>e. m = Some (Inl e, st') \<and> r = Inl e) \<or> (\<exists>x st1. m = Some (Inr x, st1) \<and> f x st1 = Some (r, st'))"
  by (auto simp: bind_def split: option.splits sum.splits prod.splits)

lemma bind_return [simp]: "bind (return x st) f = f x st"
  by (simp add: bind_def return_def)

lemma bind_raise [simp]: "bind (raise e st) f = raise e st"
  by (simp add: bind_def raise_def)

lemma bind_None [simp]: "bind None f = None"
  by (simp add: bind_def)

lemma bind_Some_Inr [simp]: "bind (Some (Inr x, st)) f = f x st"
  by (simp add: bind_def)

lemma bind_Some_Inl [simp]: "bind (Some (Inl e, st)) f = Some (Inl e, st)"
  by (simp add: bind_def)

lemma grows_refl: "grows q st st"
  by (simp add: grows_def)

lemma grows_trans: "grows q a b \<Longrightarrow> grows q b c \<Longrightarrow> grows q a c"
  unfolding grows_def by (elim conjE exE) (auto)

lemma grows_A: "grows RT_A a b \<Longrightarrow> grows q a b"
  unfolding grows_def by auto

lemma keeps_return: "keeps (grows q) (return x st) st"
  by (simp add: keeps_def return_def grows_refl)

lemma keeps_raise: "keeps (grows q) (raise e st) st"
  by (simp add: keeps_def raise_def grows_refl)

lemma keeps_bind:
  assumes "keeps (grows q) m st" and "\<And>x st1. keeps (grows q) (f x st1) st1"
  shows "keeps (grows q) (bind m f) st"
  unfolding keeps_def
proof (intro allI impI)
  fix r st' assume "bind m f = Some (r, st')"
  from bind_SomeD[OF this] show "grows q st st'"
  proof (elim disjE exE conjE)
    fix e assume "m = Some (Inl e, st')" with assms(1) show ?thesis by (simp add: keeps_def)
  next
    fix x st1 assume "m = Some (Inr x, st1)" "f x st1 = Some (r, st')"
    with assms show ?thesis unfolding keeps_def by (blast intro: grows_trans)
  qed
qed

lemma keeps_additional_rdatas:
  assumes "\<And>s f st. keeps (grows q) (walk s f st) st"
  shows "keeps (grows q) (additional_rdatas walk xs response found st) st"
proof (induction xs arbitrary: response found st)
  case Nil
  show ?case by (simp add: keeps_return)
next
  case (Cons addx rest)
  show ?case
    by (auto simp: keeps_return intro!: keeps_bind assms Cons split: prod.splits)
qed

lemma keeps_additional_rrsets:
  assumes "\<And>s f st. keeps (grows q) (walk s f st) st"
  shows "keeps (grows q) (additional_rrsets walk xs response found st) st"
proof (induction xs arbitrary: response found st)
  case Nil
  show ?case by (simp add: keeps_return)
next
  case (Cons add rest)
  show ?case
    by (auto simp: keeps_return intro!: keeps_bind keeps_additional_rdatas assms Cons split: prod.splits)
qed

lemma keeps_authority_rdatas:
  assumes "\<And>s f st. keeps (grows q) (walk s f st) st"
    and "\<And>t st. keeps (grows q) (resolve t st) st"
  shows "keeps (grows q) (authority_rdatas resolve walk xs response found st) st"
proof (induction xs arbitrary: response found st)
  case Nil
  show ?case by (simp add: keeps_return)
next
  case (Cons authx rest)
  show ?case
    by (auto simp: keeps_return keeps_raise intro!: keeps_bind assms Cons split: prod.splits sum.splits)
qed

lemma keeps_authority_rrsets:
  assumes "\<And>s f st. keeps (grows q) (walk s f st) st"
    and "\<And>t st. keeps (grows q) (resolve t st) st"
  shows "keeps (grows q) (authority_rrsets resolve walk xs response found st) st"
proof (induction xs arbitrary: response found st)
  case Nil
  show ?case by (simp add: keeps_return)
next
  case (Cons auth rest)
  show ?case
    by (auto simp: keeps_return intro!: keeps_bind keeps_authority_rdatas assms Cons split: prod.splits)
qed

lemma keeps_lookup_servers:
  assumes "\<And>s f st. keeps (grows q) (walk s f st) st"
    and "\<And>t st. keeps (grows q) (restart t st) st"
  shows "keeps (grows q) (lookup_servers walk restart qtype xs prev found st) st"
proof (induction xs arbitrary: prev found st)
  case Nil
  show ?case by (simp add: keeps_return keeps_raise split: option.splits)
next
  case (Cons server rest)
  show ?case
    by (auto simp: keeps_return keeps_raise intro!: keeps_bind assms Cons split: prod.splits sum.splits list.splits)
qed

lemma keeps_step:
  assumes "grows q st st1" "keeps (grows q) m st1"
  shows "\<forall>r st'. m = Some (r, st') \<longrightarrow> grows q st st'"
  using assms unfolding keeps_def by (blast intro: grows_trans)

lemma grows_query: "grows q st (st\<lparr>queries := queries st @ [(name, q, server)]\<rparr>)"
  by (simp add: grows_def)

lemma grows_query_out:
  "grows q st (st\<lparr>queries := queries st @ [(name, q, server)], out := out st @ [l]\<rparr>)"
  by (simp add: grows_def)

lemma keeps_lookup_both:
  "(\<forall>name q st. keeps (grows q) (lookup udp n name q st) st) \<and>
   (\<forall>name q server found st. keeps (grows q) (lookup_iter udp n name q server found st) st)"
proof (induction n)
  case 0
  show ?case by (simp add: keeps_def)
next
  case (Suc n)
  have walk: "\<And>name q s f st. keeps (grows q) (lookup_iter udp n name q s f st) st"
    using Suc by blast
  have res: "\<And>name q st. keeps (grows q) (lookup udp n name q st) st"
    using Suc by blast
  have resA: "\<And>name q st. keeps (grows q) (lookup udp n name RT_A st) st"
    using res[where q = RT_A] unfolding keeps_def by (blast intro: grows_A)
  have l: "keeps (grows q) (lookup udp (Suc n) name q st) st" for name q st
    by (simp add: keeps_lookup_servers walk res)
  have i: "keeps (grows q) (lookup_iter udp (Suc n) name q server found st) st"
    for name q server found st
  proof -
    let ?st1 = "st\<lparr>queries := queries st @ [(name, q, server)]\<rparr>"
    have a: "keeps (grows q) (additional_rrsets (lookup_iter udp n name q) xs r found ?st1) ?st1" for xs r
      by (rule keeps_additional_rrsets) (rule walk)
    have b: "keeps (grows q) (authority_rrsets (\<lambda>t. lookup udp n t RT_A) (lookup_iter udp n name q) xs r found ?st1) ?st1" for xs r
      by (rule keeps_authority_rrsets) (rule walk, rule resA)
    show ?thesis
      unfolding keeps_def
      using keeps_step[OF grows_query a] keeps_step[OF grows_query b]
      by (auto simp: Let_def return_def raise_def grows_query grows_query_out split: reply.splits)
  qed
  show ?case using l i by blast
qed

section \<open>Claims about the referral walker\<close>

text \<open>
  C5. When the transport reports a timeout or another DNS exception for the walker's
  query, \<open>lookup_iter\<close> returns the empty message together with \<open>found = False\<close>,
  whatever flag it was called with: the answer, authority and additional sections of the
  result are empty, the one query has been sent, and the cache is untouched.
\<close>

theorem lookup_iter_timeout_empty:
  assumes "udp (queries st) (target_name, qtype, server) = Timeout \<or>
           udp (queries st) (target_name, qtype, server) = DNSException"
  shows "\<exists>st'. lookup_iter udp (Suc n) target_name qtype server found st
                 = Some (Inr (Message, False), st') \<and>
               answer Message = [] \<and> authority Message = [] \<and> additional Message = [] \<and>
               queries st' = queries st @ [(target_name, qtype, server)] \<and>
               dc st' = dc st"
  using assms by (auto simp: Let_def return_def Message_def)

theorem lookup_iter_timeout_empty_witness:
  "udp_timeout (queries initial_state) (''example.com.'', RT_AAAA, ''198.41.0.4'') = Timeout \<and>
   (\<exists>st'. lookup_iter udp_timeout (Suc 0) ''example.com.'' RT_AAAA ''198.41.0.4'' True
            initial_state = Some (Inr (Message, False), st') \<and>
          queries st' = [(''example.com.'', RT_AAAA, ''198.41.0.4'')])"
  using lookup_iter_timeout_empty
    [of udp_timeout initial_state "''example.com.''" RT_AAAA "''198.41.0.4''" 0 True]
  by (auto simp: udp_timeout_def initial_state_def)

text \<open>
  C1. A reply whose rcode is not NOERROR does not degrade to the empty response: against
  servers that answer SERVFAIL, the walker's first query raises \<open>AttributeError\<close>, and
  the exception leaves \<open>main\<close> uncaught.
\<close>

theorem lookup_iter_bad_rcode_raises:
  "map_option (\<lambda>(r, st). (r, queries st))
     (lookup_iter udp_servfail 1 ''example.com.'' RT_A ''198.41.0.4'' False initial_state)
     = Some (Inl AttributeError, [(''example.com.'', RT_A, ''198.41.0.4'')]) \<and>
   map_option fst (main udp_servfail 2 [''example.com.'']) = Some (Inl AttributeError)"
  by code_simp

text \<open>
  Rules that evaluate a run on one of the example transports.
\<close>

lemmas run_simps = bind_def return_def raise_def Let_def first_answer_def
  mk_rd_def mk_rrset_def answer_msg_def referral_msg_def ROOT_SERVERS_def initial_state_def
  Message_def

text \<open>
  C2. Resolution can abort with an uncaught exception. The first root server refers
  \<open>example.com.\<close> to the nameserver \<open>ns3.example.net.\<close> without glue, and no server
  replies to the question for that nameserver's address: the sub-lookup returns a
  response with an empty answer section, \<open>ns_response.answer[0][0]\<close> raises
  \<open>IndexError\<close>, and the exception leaves \<open>lookup_iter\<close> and \<open>main\<close>.
\<close>

theorem ns_without_address_raises:
  "map_option fst
     (lookup_iter (udp_referral [''ns3.example.net.''] []) (Suc (Suc (Suc 0))) ''example.com.''
        RT_A ''198.41.0.4'' False initial_state) = Some (Inl IndexError) \<and>
   map_option fst
     (main (udp_referral [''ns3.example.net.''] []) (Suc (Suc (Suc (Suc 0)))) [''example.com.''])
     = Some (Inl IndexError)"
  by (simp add: run_simps udp_referral_def main_def main_name_def main_lookup_def
      collect_results_def)

text \<open>
  C6. The authority loop does not stop at the first success. With one nameserver in the
  referral the walk ends with the answer and \<open>found = True\<close> after three queries. With a
  second nameserver in the same NS RRset, whose address does not reply, the walk goes on
  after that success: it resolves the second nameserver, queries it, and returns the empty
  message with \<open>found = False\<close>.
\<close>

theorem second_ns_overwrites_success:
  "map_option (\<lambda>(r, st). (r, queries st))
     (lookup_iter (udp_referral [''ns1.example.net.''] []) (Suc (Suc (Suc 0)))
        ''example.com.'' RT_A ''198.41.0.4'' False initial_state)
     = Some (Inr (answer_msg [mk_rrset ''example.com.'' RT_A [mk_rd RT_A ''203.0.113.5'']], True),
         [(''example.com.'', RT_A, ''198.41.0.4''),
          (''ns1.example.net.'', RT_A, ''198.41.0.4''),
          (''example.com.'', RT_A, ''192.0.2.1'')]) \<and>
   map_option (\<lambda>(r, st). (r, queries st))
     (lookup_iter (udp_referral [''ns1.example.net.'', ''ns2.example.net.''] [])
        (Suc (Suc (Suc 0))) ''example.com.'' RT_A ''198.41.0.4'' False initial_state)
     = Some (Inr (Message, False),
         [(''example.com.'', RT_A, ''198.41.0.4''),
          (''ns1.example.net.'', RT_A, ''198.41.0.4''),
          (''example.com.'', RT_A, ''192.0.2.1''),
          (''ns2.example.net.'', RT_A, ''198.41.0.4''),
          (''example.com.'', RT_A, ''192.0.2.2'')])"
  by (simp add: run_simps udp_referral_def)

section \<open>Claims about glue\<close>

lemma bind_cong_run: "(\<And>x st. f x st = g x st) \<Longrightarrow> bind m f = bind m g"
  by (auto simp: bind_def split: option.splits sum.splits prod.splits)

lemma additional_rdatas_filter:
  "additional_rdatas walk xs response False st
     = additional_rdatas walk (filter (\<lambda>addx. rdtype addx = RT_A) xs) response False st"
proof (induction xs arbitrary: response st)
  case Nil
  show ?case by simp
next
  case (Cons addx rest)
  show ?case
  proof (cases "rdtype addx = RT_A")
    case True
    have "bind (walk (rd_text addx) False st)
            (\<lambda>(response', found') st'. if found' then return (response', found') st'
               else additional_rdatas walk rest response' found' st')
        = bind (walk (rd_text addx) False st)
            (\<lambda>(response', found') st'. if found' then return (response', found') st'
               else additional_rdatas walk (filter (\<lambda>addx. rdtype addx = RT_A) rest)
                      response' found' st')"
      by (rule bind_cong_run) (auto simp: Cons.IH)
    with True show ?thesis by simp
  next
    case False
    with Cons.IH show ?thesis by simp
  qed
qed

lemma additional_rrsets_filter:
  "additional_rrsets walk adds response False st
     = additional_rrsets walk
         (map (\<lambda>add. add\<lparr>rr_items := filter (\<lambda>addx. rdtype addx = RT_A) (rr_items add)\<rparr>) adds)
         response False st"
proof (induction adds arbitrary: response st)
  case Nil
  show ?case by simp
next
  case (Cons add rest)
  let ?f = "\<lambda>add. add\<lparr>rr_items := filter (\<lambda>addx. rdtype addx = RT_A) (rr_items add)\<rparr>"
  let ?m = "additional_rdatas walk (filter (\<lambda>addx. rdtype addx = RT_A) (rr_items add))
              response False st"
  have "bind ?m (\<lambda>(response', found') st'. if found' then return (response', found') st'
             else additional_rrsets walk rest response' found' st')
        = bind ?m (\<lambda>(response', found') st'. if found' then return (response', found') st'
             else additional_rrsets walk (map ?f rest) response' found' st')"
    by (rule bind_cong_run) (auto simp: Cons.IH)
  then show ?case
    using additional_rdatas_filter [of walk "rr_items add" response st]
    by simp
qed

lemma additional_rdatas_no_A:
  "\<forall>addx\<in>set xs. rdtype addx \<noteq> RT_A \<Longrightarrow>
   additional_rdatas walk xs response found st = return (response, found) st"
  by (induction xs) auto

lemma additional_rrsets_no_A:
  "\<forall>add\<in>set adds. \<forall>addx\<in>set (rr_items add). rdtype addx \<noteq> RT_A \<Longrightarrow>
   additional_rrsets walk adds response found st = return (response, found) st"
  by (induction adds) (auto simp: additional_rdatas_no_A return_def)

text \<open>
  The loop over the additional section stops at the first walk that comes back with
  \<open>found = True\<close>: the loop's result is that walk's result, in the state that walk left,
  whatever records and RRsets follow.
\<close>

lemma additional_rdatas_first_success:
  assumes "rdtype addx = RT_A"
    and "walk (rd_text addx) found st = Some (Inr (response', True), st')"
  shows "additional_rdatas walk (addx # rest) response found st
           = Some (Inr (response', True), st')"
  using assms by (simp add: return_def)

lemma additional_rrsets_first_success:
  assumes "additional_rdatas walk (rr_items add) response found st
             = Some (Inr (response', True), st')"
  shows "additional_rrsets walk (add # rest) response found st
           = Some (Inr (response', True), st')"
  using assms by (simp add: return_def)

text \<open>
  C10, as stated, fails: a referral whose additional section holds only an AAAA record
  is not treated like one without glue. The same referral, from the same servers, ends
  after one query with \<open>found = False\<close> when it carries the AAAA record, and after three
  queries with \<open>found = True\<close> when its additional section is empty, because only then is
  the authority section walked.
\<close>

theorem aaaa_glue_is_not_no_glue:
  "map_option (\<lambda>(r, st). (map_sum id snd r, length (queries st)))
     (lookup_iter (udp_referral [''ns1.example.net.'']
          [mk_rrset ''ns1.example.net.'' RT_AAAA [mk_rd RT_AAAA ''2001:db8::1'']])
        (Suc (Suc (Suc 0))) ''example.com.'' RT_A ''198.41.0.4'' False initial_state)
     = Some (Inr False, 1) \<and>
   map_option (\<lambda>(r, st). (map_sum id snd r, length (queries st)))
     (lookup_iter (udp_referral [''ns1.example.net.''] [])
        (Suc (Suc (Suc 0))) ''example.com.'' RT_A ''198.41.0.4'' False initial_state)
     = Some (Inr True, 3)"
  by (simp add: run_simps udp_referral_def)

text \<open>
  C10, amended. Starting with \<open>found = False\<close>, the loop over the additional section
  does what it would do on the records of type A alone, so a record of any other type
  triggers no query. And when the additional section is not empty but holds no record
  of type A, the walker sends its one query and returns the referral itself with the flag
  it was given; nothing is read from the authority section.
\<close>

theorem glue_only_type_A:
  "additional_rrsets walk adds response False st
     = additional_rrsets walk
         (map (\<lambda>add. add\<lparr>rr_items := filter (\<lambda>addx. rdtype addx = RT_A) (rr_items add)\<rparr>) adds)
         response False st \<and>
   (udp (queries st) (target_name, qtype, server) = Reply response \<and>
    rcode response = NOERROR \<and> answer response = [] \<and> additional response \<noteq> [] \<and>
    (\<forall>add\<in>set (additional response). \<forall>addx\<in>set (rr_items add). rdtype addx \<noteq> RT_A) \<longrightarrow>
    lookup_iter udp (Suc n) target_name qtype server found st
      = Some (Inr (response, found),
          st\<lparr>queries := queries st @ [(target_name, qtype, server)]\<rparr>))"
  using additional_rrsets_filter [of walk adds response st]
  by (auto simp: additional_rrsets_no_A return_def)

theorem glue_only_type_A_witness:
  "lookup_iter
     (udp_referral [''ns1.example.net.'']
        [mk_rrset ''ns1.example.net.'' RT_AAAA [mk_rd RT_AAAA ''2001:db8::1'']])
     (Suc 0) ''example.com.'' RT_A ''198.41.0.4'' False initial_state
   = Some (Inr (referral_msg [mk_rrset ''com.'' RT_NS [mk_rd RT_NS ''ns1.example.net.'']]
                  [mk_rrset ''ns1.example.net.'' RT_AAAA [mk_rd RT_AAAA ''2001:db8::1'']],
                False),
       initial_state\<lparr>queries := [(''example.com.'', RT_A, ''198.41.0.4'')]\<rparr>)"
proof -
  let ?glue = "[mk_rrset ''ns1.example.net.'' RT_AAAA [mk_rd RT_AAAA ''2001:db8::1'']]"
  let ?udp = "udp_referral [''ns1.example.net.''] ?glue"
  let ?response = "referral_msg [mk_rrset ''com.'' RT_NS [mk_rd RT_NS ''ns1.example.net.'']] ?glue"
  have h: "?udp (queries initial_state) (''example.com.'', RT_A, ''198.41.0.4'') = Reply ?response \<and>
      rcode ?response = NOERROR \<and> answer ?response = [] \<and> additional ?response \<noteq> [] \<and>
      (\<forall>add\<in>set (additional ?response). \<forall>addx\<in>set (rr_items add). rdtype addx \<noteq> RT_A)"
    by (simp add: udp_referral_def referral_msg_def mk_rrset_def mk_rd_def)
  from glue_only_type_A [of undefined "[]" ?response initial_state ?udp "''example.com.''"
      RT_A "''198.41.0.4''" 0 False] h
  show ?thesis by (simp add: initial_state_def)
qed

section \<open>Claims about the root driver\<close>

text \<open>
  Root servers whose walks were all inconclusive are passed over: the loop continues
  with the rest, from the response, flag and state the last of them left.
\<close>

lemma pass_servers_append:
  "pass_servers walk pre prev found st = Some (prev', found', st') \<Longrightarrow>
   lookup_servers walk restart qtype (pre @ rest) prev found st
     = lookup_servers walk restart qtype rest prev' found' st'"
proof (induction pre arbitrary: prev found st)
  case Nil
  then show ?case by simp
next
  case (Cons server pre)
  from Cons.prems obtain response f1 st1 where
    w: "walk server found st = Some (Inr (response, f1), st1)" and
    i: "inconclusive response" and
    p: "pass_servers walk pre (Some response) f1 st1 = Some (prev', found', st')"
    by (auto split: option.splits sum.splits prod.splits if_splits)
  from i have "lookup_servers walk restart qtype ((server # pre) @ rest) prev found st
      = lookup_servers walk restart qtype (pre @ rest) (Some response) f1 st1"
    using w by (auto simp: inconclusive_def split: list.splits)
  with Cons.IH [OF p] show ?case by simp
qed

text \<open>
  C3. Let the walks against the root servers before \<open>server\<close> be inconclusive and let
  the walk against \<open>server\<close> return a response with a non-empty answer section. If the
  first answer RRset is of type CNAME and the query type is not CNAME, \<open>lookup\<close> is the
  fresh \<open>lookup\<close> of the alias target (the text of the first record) for the same query
  type, started in the state the walk left; otherwise \<open>lookup\<close> returns the response as
  it is.
\<close>

theorem lookup_cname_restart:
  assumes "ROOT_SERVERS = pre @ server # rest"
    and "pass_servers (lookup_iter udp n target_name qtype) pre None False st
           = Some (prev, found, st1)"
    and "lookup_iter udp n target_name qtype server found st1
           = Some (Inr (response, found'), st2)"
    and "answer response = top_rrset # others"
  shows "lookup udp (Suc n) target_name qtype st =
           (if rr_rdtype top_rrset = RT_CNAME \<and> qtype \<noteq> RT_CNAME then
              (case rr_items top_rrset of
                 [] \<Rightarrow> Some (Inl IndexError, st2)
               | alias # _ \<Rightarrow> lookup udp n (rd_text alias) qtype st2)
            else Some (Inr response, st2))"
proof -
  have "lookup udp (Suc n) target_name qtype st
      = lookup_servers (lookup_iter udp n target_name qtype) (\<lambda>t. lookup udp n t qtype)
          qtype (server # rest) prev found st1"
    by (simp only: lookup.simps assms(1) pass_servers_append [OF assms(2)])
  then show ?thesis
    using assms(3,4)
    by (simp add: first_answer_def return_def raise_def split: list.splits)
qed

theorem lookup_cname_restart_witness:
  "lookup udp_zone (Suc (Suc (Suc 0))) ''alias.example.'' RT_A initial_state
     = lookup udp_zone (Suc (Suc 0)) ''host.example.'' RT_A
         (initial_state\<lparr>queries := [(''alias.example.'', RT_A, ''198.41.0.4''),
                                     (''alias.example.'', RT_A, ''199.9.14.201'')],
                        out := [''Search longer than 3 seconds...waiting...'']\<rparr>) \<and>
   lookup udp_zone (Suc (Suc (Suc 0))) ''alias.example.'' RT_CNAME initial_state
     = Some (Inr (answer_msg [mk_rrset ''alias.example.'' RT_CNAME
                                [mk_rd RT_CNAME ''host.example.'']]),
         initial_state\<lparr>queries := [(''alias.example.'', RT_CNAME, ''198.41.0.4''),
                                     (''alias.example.'', RT_CNAME, ''199.9.14.201'')],
                        out := [''Search longer than 3 seconds...waiting...'']\<rparr>)"
proof -
  let ?rest = "[''192.33.4.12'', ''199.7.91.13'', ''192.203.230.10'', ''192.5.5.241'',
      ''192.112.36.4'', ''198.97.190.53'', ''192.36.148.17'', ''192.58.128.30'',
      ''193.0.14.129'', ''199.7.83.42'', ''202.12.27.33'']"
  let ?top = "mk_rrset ''alias.example.'' RT_CNAME [mk_rd RT_CNAME ''host.example.'']"
  let ?st1 = "\<lambda>q. initial_state\<lparr>queries := [(''alias.example.'', q, ''198.41.0.4'')],
      out := [''Search longer than 3 seconds...waiting...'']\<rparr>"
  let ?st2 = "\<lambda>q. initial_state\<lparr>queries := [(''alias.example.'', q, ''198.41.0.4''),
        (''alias.example.'', q, ''199.9.14.201'')],
      out := [''Search longer than 3 seconds...waiting...'']\<rparr>"
  have roots: "ROOT_SERVERS = [''198.41.0.4''] @ ''199.9.14.201'' # ?rest"
    by (simp add: ROOT_SERVERS_def)
  have pass: "pass_servers (lookup_iter udp_zone (Suc (Suc 0)) ''alias.example.'' q)
      [''198.41.0.4''] None False initial_state = Some (Some Message, False, ?st1 q)" for q
    by (simp add: udp_zone_def run_simps inconclusive_def)
  have walk: "lookup_iter udp_zone (Suc (Suc 0)) ''alias.example.'' q ''199.9.14.201'' False (?st1 q)
      = Some (Inr (answer_msg [?top], True), ?st2 q)" for q
    by (simp add: udp_zone_def run_simps)
  have ans: "answer (answer_msg [?top]) = ?top # []"
    by (simp add: answer_msg_def)
  from lookup_cname_restart [OF roots pass walk ans, of RT_A]
    lookup_cname_restart [OF roots pass walk ans, of RT_CNAME]
  show ?thesis by (simp add: mk_rrset_def mk_rd_def)
qed

text \<open>
  C4. Let the walks against the root servers \<open>pre\<close> be inconclusive. If the walk against
  the next root server returns a response with an empty answer section whose authority
  section starts with an SOA RRset, \<open>lookup\<close> returns that response in the state this walk
  left, so no later root server is queried. If \<open>pre\<close> is the whole list, \<open>lookup\<close> returns
  the response of the last walk.
\<close>

theorem lookup_soa_stops:
  assumes "ROOT_SERVERS = pre @ rest"
    and "pass_servers (lookup_iter udp n target_name qtype) pre None False st
           = Some (prev, found, st1)"
  shows "(rest = server # rest' \<and>
          lookup_iter udp n target_name qtype server found st1
            = Some (Inr (response, found'), st2) \<and>
          answer response = [] \<and> authority response = auth # auths \<and>
          rr_rdtype auth = RT_SOA \<longrightarrow>
          lookup udp (Suc n) target_name qtype st = Some (Inr response, st2)) \<and>
         (rest = [] \<longrightarrow>
            (\<exists>response. prev = Some response \<and>
               lookup udp (Suc n) target_name qtype st = Some (Inr response, st1)))"
proof -
  have eq: "lookup udp (Suc n) target_name qtype st
      = lookup_servers (lookup_iter udp n target_name qtype) (\<lambda>t. lookup udp n t qtype)
          qtype rest prev found st1"
    by (simp only: lookup.simps assms(1) pass_servers_append [OF assms(2)])
  have "prev \<noteq> None" if "rest = []"
  proof -
    from that assms(1) have "pre \<noteq> []" by (auto simp: ROOT_SERVERS_def)
    then obtain s ss where "pre = s # ss" by (cases pre) auto
    with assms(2) obtain r f s1 where "pass_servers (lookup_iter udp n target_name qtype) ss (Some r) f s1 = Some (prev, found, st1)"
      by (auto split: option.splits sum.splits prod.splits if_splits)
    moreover have "pass_servers w xs (Some r) f s1 = Some (p, f', s') \<Longrightarrow> p \<noteq> None" for w xs r f s1 p f' s'
      by (induction xs arbitrary: r f s1) (auto split: option.splits sum.splits prod.splits if_splits)
    ultimately show ?thesis by blast
  qed
  then show ?thesis
    using eq by (auto simp: return_def)
qed

theorem lookup_soa_stops_witness:
  "lookup udp_zone (Suc (Suc 0)) ''other.example.'' RT_MX initial_state
     = Some (Inr (referral_msg
                    [mk_rrset ''example.'' RT_SOA
                       [mk_rd RT_SOA ''ns.example. admin.example. 1 2 3 4 5'']] []),
         initial_state\<lparr>queries := [(''other.example.'', RT_MX, ''198.41.0.4''),
                                     (''other.example.'', RT_MX, ''199.9.14.201'')],
                        out := [''Search longer than 3 seconds...waiting...'']\<rparr>) \<and>
   map_option (\<lambda>(r, st). (r, map (snd \<circ> snd) (queries st)))
     (lookup udp_timeout (Suc (Suc 0)) ''example.com.'' RT_A initial_state)
     = Some (Inr Message, ROOT_SERVERS)"
proof -
  let ?rest = "[''192.33.4.12'', ''199.7.91.13'', ''192.203.230.10'', ''192.5.5.241'',
      ''192.112.36.4'', ''198.97.190.53'', ''192.36.148.17'', ''192.58.128.30'',
      ''193.0.14.129'', ''199.7.83.42'', ''202.12.27.33'']"
  let ?soa = "referral_msg
      [mk_rrset ''example.'' RT_SOA [mk_rd RT_SOA ''ns.example. admin.example. 1 2 3 4 5'']] []"
  let ?st1 = "initial_state\<lparr>queries := [(''other.example.'', RT_MX, ''198.41.0.4'')],
      out := [''Search longer than 3 seconds...waiting...'']\<rparr>"
  let ?st2 = "initial_state\<lparr>queries := [(''other.example.'', RT_MX, ''198.41.0.4''),
        (''other.example.'', RT_MX, ''199.9.14.201'')],
      out := [''Search longer than 3 seconds...waiting...'']\<rparr>"
  have roots: "ROOT_SERVERS = [''198.41.0.4''] @ ''199.9.14.201'' # ?rest"
    by (simp add: ROOT_SERVERS_def)
  have pass: "pass_servers (lookup_iter udp_zone (Suc 0) ''other.example.'' RT_MX)
      [''198.41.0.4''] None False initial_state = Some (Some Message, False, ?st1)"
    by (simp add: udp_zone_def run_simps inconclusive_def)
  have walk: "lookup_iter udp_zone (Suc 0) ''other.example.'' RT_MX ''199.9.14.201'' False ?st1
      = Some (Inr (?soa, True), ?st2)"
    by (simp add: udp_zone_def run_simps)
  have a: "lookup udp_zone (Suc (Suc 0)) ''other.example.'' RT_MX initial_state
      = Some (Inr ?soa, ?st2)"
    using lookup_soa_stops [OF roots pass, where server = "''199.9.14.201''" and rest' = ?rest
        and response = ?soa and found' = True and ?st2.0 = ?st2
        and auth = "mk_rrset ''example.'' RT_SOA
                      [mk_rd RT_SOA ''ns.example. admin.example. 1 2 3 4 5'']"
        and auths = "[]"] walk
    by (simp add: referral_msg_def mk_rrset_def)
  have roots2: "ROOT_SERVERS = ROOT_SERVERS @ []" by simp
  have "\<exists>st1. pass_servers (lookup_iter udp_timeout (Suc 0) ''example.com.'' RT_A) ROOT_SERVERS
       None False initial_state = Some (Some Message, False, st1) \<and>
     map (snd \<circ> snd) (queries st1) = ROOT_SERVERS"
    by (simp add: udp_timeout_def run_simps inconclusive_def)
  then obtain st1 where pass2:
    "pass_servers (lookup_iter udp_timeout (Suc 0) ''example.com.'' RT_A) ROOT_SERVERS None False
       initial_state = Some (Some Message, False, st1)"
    and q: "map (snd \<circ> snd) (queries st1) = ROOT_SERVERS"
    by blast
  have b: "lookup udp_timeout (Suc (Suc 0)) ''example.com.'' RT_A initial_state
      = Some (Inr Message, st1)"
    using lookup_soa_stops [OF roots2 pass2] by simp
  show ?thesis using a b q by simp
qed

section \<open>Claims about nameserver sub-lookups\<close>

lemma keeps_lookup: "keeps (grows q) (lookup udp n t q st) st"
  using keeps_lookup_both by blast

lemma keeps_lookup_iter: "keeps (grows q) (lookup_iter udp n t q s f st) st"
  using keeps_lookup_both by blast

lemma keeps_lookup_A: "keeps (grows q) (lookup udp n t RT_A st) st"
  using keeps_lookup [of RT_A udp n t st] unfolding keeps_def by (blast intro: grows_A)

lemma grows_queriesD:
  "grows q st st' \<Longrightarrow>
   \<exists>qs. queries st' = queries st @ qs \<and> (\<forall>x\<in>set qs. fst (snd x) = q \<or> fst (snd x) = RT_A)"
  by (simp add: grows_def)

lemma lookup_iter_first_query:
  assumes "lookup_iter udp n t q s f st = Some (r, st')"
  shows "\<exists>qs. queries st' = queries st @ (t, q, s) # qs \<and>
              (\<forall>x\<in>set qs. fst (snd x) = q \<or> fst (snd x) = RT_A)"
proof (cases n)
  case 0
  with assms show ?thesis by simp
next
  case (Suc m)
  let ?st1 = "st\<lparr>queries := queries st @ [(t, q, s)]\<rparr>"
  have a: "keeps (grows q) (additional_rrsets (lookup_iter udp m t q) xs resp f ?st1) ?st1"
    for xs resp
    by (rule keeps_additional_rrsets) (rule keeps_lookup_iter)
  have b: "keeps (grows q)
      (authority_rrsets (\<lambda>t. lookup udp m t RT_A) (lookup_iter udp m t q) xs resp f ?st1) ?st1"
    for xs resp
    by (rule keeps_authority_rrsets) (rule keeps_lookup_iter, rule keeps_lookup_A)
  have "grows q ?st1 st'"
    using assms Suc a b
    by (auto simp: Let_def return_def raise_def keeps_def grows_def
        split: reply.splits if_splits)
  from grows_queriesD [OF this] show ?thesis by auto
qed

lemma lookup_servers_first_walk:
  assumes w: "\<And>s f st. keeps (grows q) (walk s f st) st"
    and r: "\<And>t st. keeps (grows q) (restart t st) st"
    and run: "lookup_servers walk restart qtype (s # rest) prev found st = Some (res, st')"
  shows "\<exists>r1 st1. walk s found st = Some (r1, st1) \<and> grows q st1 st'"
proof -
  from bind_SomeD [OF run [unfolded lookup_servers.simps]]
  show ?thesis
  proof (elim disjE exE conjE)
    fix e assume "walk s found st = Some (Inl e, st')"
    then show ?thesis by (blast intro: grows_refl)
  next
    fix x st1
    assume m: "walk s found st = Some (Inr x, st1)"
      and k: "(case x of (response, found') \<Rightarrow> \<lambda>st'.
           case answer response of
             [] \<Rightarrow> (case authority response of
                 [] \<Rightarrow> lookup_servers walk restart qtype rest (Some response) found' st'
               | auth # _ \<Rightarrow>
                   if rr_rdtype auth = RT_SOA then return response st'
                   else lookup_servers walk restart qtype rest (Some response) found' st')
           | top_rrset # _ \<Rightarrow>
               if rr_rdtype top_rrset = RT_CNAME \<and> qtype \<noteq> RT_CNAME then
                 (case first_answer response of
                    Inl e \<Rightarrow> raise e st'
                  | Inr first_resp \<Rightarrow> restart (rd_text first_resp) st')
               else return response st') st1 = Some (res, st')"
    have "grows q st1 st'"
      using k keeps_lookup_servers [OF w r, where qtype = qtype and xs = rest] r
      by (auto simp: keeps_def return_def raise_def grows_refl
          split: prod.splits list.splits if_splits sum.splits)
    with m show ?thesis by blast
  qed
qed

lemma lookup_first_query:
  assumes "lookup udp n t q st = Some (r, st')"
  shows "\<exists>qs. queries st' = queries st @ (t, q, ''198.41.0.4'') # qs \<and>
              (\<forall>x\<in>set qs. fst (snd x) = q \<or> fst (snd x) = RT_A)"
proof (cases n)
  case 0
  with assms show ?thesis by simp
next
  case (Suc m)
  have run: "lookup_servers (lookup_iter udp m t q) (\<lambda>t. lookup udp m t q) q
      (''198.41.0.4'' # tl ROOT_SERVERS) None False st = Some (r, st')"
    using assms Suc by (simp add: ROOT_SERVERS_def)
  from lookup_servers_first_walk [OF keeps_lookup_iter keeps_lookup run]
  obtain r1 st1 where w: "lookup_iter udp m t q ''198.41.0.4'' False st = Some (r1, st1)"
    and g: "grows q st1 st'"
    by blast
  from lookup_iter_first_query [OF w] grows_queriesD [OF g]
  show ?thesis by auto
qed

text \<open>
  C7. Whenever the loop over the records of an authority RRset, as \<open>lookup_iter\<close> runs
  it for any query type \<open>qtype\<close>, reaches an NS record and ends at all, the first thing it
  ran is the top-level \<open>lookup\<close> of the nameserver's name for type A: that sub-lookup
  starts with the type-A query for this name to the first root server, every query it
  sends is of type A (so none is of type AAAA), and whatever the loop sends afterwards
  comes after the sub-lookup's queries.
\<close>

theorem ns_sublookup_type_A:
  assumes "rdtype authx = RT_NS"
    and "authority_rdatas (\<lambda>t. lookup udp n t RT_A) (lookup_iter udp n target_name qtype)
           (authx # rest) response found st = Some (r, st')"
  shows "\<exists>ns_result st1 qs later.
           lookup udp n (rd_text authx) RT_A st = Some (ns_result, st1) \<and>
           queries st1 = queries st @ (rd_text authx, RT_A, ''198.41.0.4'') # qs \<and>
           (\<forall>x\<in>set qs. fst (snd x) = RT_A) \<and>
           queries st' = queries st1 @ later"
proof -
  let ?walk = "lookup_iter udp n target_name qtype"
  let ?resolve = "\<lambda>t. lookup udp n t RT_A"
  let ?k = "\<lambda>ns_response st1.
      case first_answer ns_response of
        Inl e \<Rightarrow> raise e st1
      | Inr rd \<Rightarrow>
          bind (?walk (rd_text rd) found st1) (\<lambda>(response', found') st2.
            authority_rdatas ?resolve ?walk rest response' found' st2)"
  have run: "bind (lookup udp n (rd_text authx) RT_A st) ?k = Some (r, st')"
    using assms by simp
  have "\<exists>ns_result st1. lookup udp n (rd_text authx) RT_A st = Some (ns_result, st1) \<and>
      grows qtype st1 st'"
    using bind_SomeD [OF run]
  proof (elim disjE exE conjE)
    fix e assume "lookup udp n (rd_text authx) RT_A st = Some (Inl e, st')"
    then show ?thesis by (blast intro: grows_refl)
  next
    fix x st1
    assume m: "lookup udp n (rd_text authx) RT_A st = Some (Inr x, st1)"
      and k: "?k x st1 = Some (r, st')"
    have "keeps (grows qtype) (?k x st1) st1"
      by (auto simp: keeps_raise split: sum.splits prod.splits
          intro!: keeps_bind keeps_lookup_iter keeps_authority_rdatas keeps_lookup_A)
    with k have "grows qtype st1 st'" by (simp add: keeps_def)
    with m show ?thesis by blast
  qed
  then obtain ns_result st1 where
    l: "lookup udp n (rd_text authx) RT_A st = Some (ns_result, st1)" and
    g: "grows qtype st1 st'"
    by blast
  from lookup_first_query [OF l] grows_queriesD [OF g] l
  show ?thesis by auto
qed


theorem ns_sublookup_type_A_witness:
  "\<exists>r st' ns_result st1 qs later.
     authority_rdatas (\<lambda>t. lookup (udp_referral [''ns1.example.net.''] []) (Suc (Suc 0)) t RT_A)
       (lookup_iter (udp_referral [''ns1.example.net.''] []) (Suc (Suc 0)) ''example.com.'' RT_AAAA)
       [mk_rd RT_NS ''ns1.example.net.''] Message False initial_state = Some (r, st') \<and>
     lookup (udp_referral [''ns1.example.net.''] []) (Suc (Suc 0)) ''ns1.example.net.'' RT_A
       initial_state = Some (ns_result, st1) \<and>
     queries st1 = (''ns1.example.net.'', RT_A, ''198.41.0.4'') # qs \<and>
     (\<forall>x\<in>set qs. fst (snd x) = RT_A) \<and>
     queries st' = queries st1 @ later \<and>
     queries st' = [(''ns1.example.net.'', RT_A, ''198.41.0.4''),
                    (''example.com.'', RT_AAAA, ''192.0.2.1'')]"
proof -
  let ?udp = "udp_referral [''ns1.example.net.''] []"
  have t: "rdtype (mk_rd RT_NS ''ns1.example.net.'') = RT_NS"
    by (simp add: mk_rd_def)
  have "\<exists>r st'. authority_rdatas (\<lambda>t. lookup ?udp (Suc (Suc 0)) t RT_A)
      (lookup_iter ?udp (Suc (Suc 0)) ''example.com.'' RT_AAAA)
      [mk_rd RT_NS ''ns1.example.net.''] Message False initial_state = Some (r, st') \<and>
      queries st' = [(''ns1.example.net.'', RT_A, ''198.41.0.4''),
                     (''example.com.'', RT_AAAA, ''192.0.2.1'')]"
    by (simp add: run_simps udp_referral_def)
  then obtain r st' where run: "authority_rdatas (\<lambda>t. lookup ?udp (Suc (Suc 0)) t RT_A)
      (lookup_iter ?udp (Suc (Suc 0)) ''example.com.'' RT_AAAA)
      [mk_rd RT_NS ''ns1.example.net.''] Message False initial_state = Some (r, st')"
    and q: "queries st' = [(''ns1.example.net.'', RT_A, ''198.41.0.4''),
                     (''example.com.'', RT_AAAA, ''192.0.2.1'')]"
    by blast
  from ns_sublookup_type_A [OF t run] run q show ?thesis
    by (auto simp: mk_rd_def initial_state_def)
qed

section \<open>Claims about the collector and the cache\<close>

lemma print_entries_frame:
  "print_entries fmt es st = Some (r, st') \<Longrightarrow> dc st' = dc st \<and> queries st' = queries st"
  by (induction es arbitrary: st) (auto simp: return_def raise_def split: sum.splits)

lemma print_formats_frame:
  "print_formats fs results st = Some (r, st') \<Longrightarrow> dc st' = dc st \<and> queries st' = queries st"
proof (induction fs arbitrary: st)
  case Nil
  then show ?case by (simp add: return_def)
next
  case (Cons f fs)
  obtain rtype fmt where f: "f = (rtype, fmt)" by (cases f)
  from Cons.prems f have
    "bind (print_entries fmt (results_get results rtype) st) (\<lambda>_ st'. print_formats fs results st')
       = Some (r, st')" by simp
  from bind_SomeD [OF this] show ?case
    using Cons.IH print_entries_frame by (elim disjE exE conjE) fastforce+
qed

lemma print_results_frame:
  "print_results results st = Some (r, st') \<Longrightarrow> dc st' = dc st \<and> queries st' = queries st"
  unfolding print_results_def by (rule print_formats_frame)

lemma lookup_dc: "lookup udp n t q st = Some (r, st') \<Longrightarrow> dc st' = dc st"
  using keeps_lookup [of q udp n t st] by (simp add: keeps_def grows_def)

lemma collect_results_cases:
  assumes "collect_results udp n name st = Some (r, st')"
  shows "(\<exists>e. r = Inl e \<and> dc st' = dc st) \<or>
         (\<exists>response1 response2 response3 response4.
            r = Inr [(''CNAME'', cname_entries name response1),
                     (''A'', address_entries RT_A response2),
                     (''AAAA'', address_entries RT_AAAA response3),
                     (''MX'', mx_entries response4)] \<and>
            dc_items (dc st') = (dc_items (dc st))(name \<mapsto> projr r))"
proof -
  note run = assms [unfolded collect_results_def]
  from bind_SomeD [OF run] show ?thesis
  proof (elim disjE exE conjE)
    fix e assume x: "lookup udp n name RT_CNAME st = Some (Inl e, st')" and "r = Inl e"
    then show ?thesis using lookup_dc [OF x] by simp
  next
    fix r1 st1
    assume l1: "lookup udp n name RT_CNAME st = Some (Inr r1, st1)"
      and k1: "bind (lookup udp n name RT_A st1) (\<lambda>response2 st2.
     bind (lookup udp n name RT_AAAA st2) (\<lambda>response3 st3.
     bind (lookup udp n name RT_MX st3) (\<lambda>response4 st4.
       let full_response =
             [(''CNAME'', cname_entries name r1),
              (''A'', address_entries RT_A response2),
              (''AAAA'', address_entries RT_AAAA response3),
              (''MX'', mx_entries response4)];
           domaincache = (dc st4)\<lparr>dc_key := Some name, dc_value := Some full_response\<rparr>
       in return full_response (st4\<lparr>dc := dict_add domaincache name full_response\<rparr>))))
       = Some (r, st')"
    from bind_SomeD [OF k1] show ?thesis
    proof (elim disjE exE conjE)
      fix e assume x: "lookup udp n name RT_A st1 = Some (Inl e, st')" and "r = Inl e"
      then show ?thesis using lookup_dc [OF l1] lookup_dc [OF x] by simp
    next
      fix r2 st2
      assume l2: "lookup udp n name RT_A st1 = Some (Inr r2, st2)"
        and k2: "bind (lookup udp n name RT_AAAA st2) (\<lambda>response3 st3.
     bind (lookup udp n name RT_MX st3) (\<lambda>response4 st4.
       let full_response =
             [(''CNAME'', cname_entries name r1),
              (''A'', address_entries RT_A r2),
              (''AAAA'', address_entries RT_AAAA response3),
              (''MX'', mx_entries response4)];
           domaincache = (dc st4)\<lparr>dc_key := Some name, dc_value := Some full_response\<rparr>
       in return full_response (st4\<lparr>dc := dict_add domaincache name full_response\<rparr>)))
       = Some (r, st')"
      from bind_SomeD [OF k2] show ?thesis
      proof (elim disjE exE conjE)
        fix e assume x: "lookup udp n name RT_AAAA st2 = Some (Inl e, st')" and "r = Inl e"
        then show ?thesis using lookup_dc [OF l1] lookup_dc [OF l2] lookup_dc [OF x] by simp
      next
        fix r3 st3
        assume l3: "lookup udp n name RT_AAAA st2 = Some (Inr r3, st3)"
          and k3: "bind (lookup udp n name RT_MX st3) (\<lambda>response4 st4.
       let full_response =
             [(''CNAME'', cname_entries name r1),
              (''A'', address_entries RT_A r2),
              (''AAAA'', address_entries RT_AAAA r3),
              (''MX'', mx_entries response4)];
           domaincache = (dc st4)\<lparr>dc_key := Some name, dc_value := Some full_response\<rparr>
       in return full_response (st4\<lparr>dc := dict_add domaincache name full_response\<rparr>))
       = Some (r, st')"
        from bind_SomeD [OF k3] show ?thesis
        proof (elim disjE exE conjE)
          fix e assume x: "lookup udp n name RT_MX st3 = Some (Inl e, st')" and "r = Inl e"
          then show ?thesis
            using lookup_dc [OF l1] lookup_dc [OF l2] lookup_dc [OF l3] lookup_dc [OF x] by simp
        next
          fix r4 st4
          assume l4: "lookup udp n name RT_MX st3 = Some (Inr r4, st4)"
            and k4: "(let full_response =
             [(''CNAME'', cname_entries name r1),
              (''A'', address_entries RT_A r2),
              (''AAAA'', address_entries RT_AAAA r3),
              (''MX'', mx_entries r4)];
           domaincache = (dc st4)\<lparr>dc_key := Some name, dc_value := Some full_response\<rparr>
       in return full_response (st4\<lparr>dc := dict_add domaincache name full_response\<rparr>))
       = Some (r, st')"
          have "dc st4 = dc st"
            using lookup_dc [OF l1] lookup_dc [OF l2] lookup_dc [OF l3] lookup_dc [OF l4] by simp
          with k4 show ?thesis
            by (auto simp: Let_def return_def dict_add_def)
        qed
      qed
    qed
  qed
qed

lemma main_lookup_stored:
  assumes "main_lookup udp n name st = Some (Inr rm, st1)"
  shows "dc_items (dc st1) name = Some rm \<and> rm \<noteq> []"
proof (cases "\<exists>cache. dc_items (dc st) name = Some cache \<and> cache \<noteq> []")
  case True
  with assms show ?thesis by (auto simp: main_lookup_def return_def)
next
  case False
  with assms have "collect_results udp n name st = Some (Inr rm, st1)"
    by (auto simp: main_lookup_def split: option.splits if_splits)
  from collect_results_cases [OF this] show ?thesis by auto
qed

lemma main_lookup_keeps_entry:
  assumes "dc_items (dc st) name = Some rm" and "rm \<noteq> []"
    and "main_lookup udp n other st = Some (r, st')"
  shows "dc_items (dc st') name = Some rm"
proof (cases "\<exists>cache. dc_items (dc st) other = Some cache \<and> cache \<noteq> []")
  case True
  with assms show ?thesis by (auto simp: main_lookup_def return_def)
next
  case False
  with assms(3) have c: "collect_results udp n other st = Some (r, st')"
    by (auto simp: main_lookup_def split: option.splits if_splits)
  from False assms(1,2) have "other \<noteq> name" by auto
  with collect_results_cases [OF c] assms(1) show ?thesis by auto
qed

lemma main_name_keeps_entry:
  assumes "dc_items (dc st) name = Some rm" and "rm \<noteq> []"
    and "main_name udp n other st = Some (r, st')"
  shows "dc_items (dc st') name = Some rm"
proof -
  from bind_SomeD [OF assms(3) [unfolded main_name_def]] show ?thesis
  proof (elim disjE exE conjE)
    fix e assume "main_lookup udp n other st = Some (Inl e, st')"
    from main_lookup_keeps_entry [OF assms(1,2) this] show ?thesis .
  next
    fix x st1
    assume l: "main_lookup udp n other st = Some (Inr x, st1)"
      and p: "print_results x st1 = Some (r, st')"
    from main_lookup_keeps_entry [OF assms(1,2) l] print_results_frame [OF p]
    show ?thesis by simp
  qed
qed

lemma main_names_keeps_entry:
  assumes "dc_items (dc st) name = Some rm" and "rm \<noteq> []"
    and "main_names udp n names st = Some (r, st')"
  shows "dc_items (dc st') name = Some rm"
  using assms
proof (induction names arbitrary: st)
  case Nil
  then show ?case by (simp add: return_def)
next
  case (Cons a_domain_name rest)
  from Cons.prems(3) have
    "bind (main_name udp n a_domain_name st) (\<lambda>_ st'. main_names udp n rest st') = Some (r, st')"
    by simp
  from bind_SomeD [OF this] show ?case
  proof (elim disjE exE conjE)
    fix e assume "main_name udp n a_domain_name st = Some (Inl e, st')"
    from main_name_keeps_entry [OF Cons.prems(1,2) this] show ?thesis .
  next
    fix x st1
    assume m: "main_name udp n a_domain_name st = Some (Inr x, st1)"
      and k: "main_names udp n rest st1 = Some (r, st')"
    from Cons.IH [OF main_name_keeps_entry [OF Cons.prems(1,2) m] Cons.prems(2) k]
    show ?thesis .
  qed
qed

text \<open>
  C8. Let a first lookup of \<open>name\<close> by \<open>main\<close> have completed with the record map \<open>rm\<close>,
  and let \<open>main\<close> have gone on with any further names, on any transport, ending in any
  way. Then a second lookup of \<open>name\<close>, whatever the transport and the depth allowed,
  returns \<open>rm\<close> and leaves the state as it is (no query is sent, nothing is written to
  the cache); what \<open>main\<close> does for the name is to print \<open>rm\<close>, which changes neither the
  queries nor the cache. And a \<open>collect_results\<close> that raises leaves the cache as it was:
  the entry is written only once all four lookups have returned.
\<close>

theorem cached_name_needs_no_query:
  assumes "main_lookup udp n name st = Some (Inr rm, st1)"
    and "main_names udp' n' names st1 = Some (r, st2)"
  shows "main_lookup udp'' n'' name st2 = Some (Inr rm, st2) \<and>
         main_name udp'' n'' name st2 = print_results rm st2 \<and>
         (main_name udp'' n'' name st2 = Some (r', st3) \<longrightarrow>
            queries st3 = queries st2 \<and> dc st3 = dc st2) \<and>
         (collect_results udp n name st = Some (Inl e, st') \<longrightarrow> dc st' = dc st)"
proof -
  from main_lookup_stored [OF assms(1)]
  have s1: "dc_items (dc st1) name = Some rm" and ne: "rm \<noteq> []" by simp_all
  from main_names_keeps_entry [OF s1 ne assms(2)]
  have s2: "dc_items (dc st2) name = Some rm" .
  have hit: "main_lookup udp'' n'' name st2 = Some (Inr rm, st2)"
    using s2 ne by (simp add: main_lookup_def return_def)
  have pr: "main_name udp'' n'' name st2 = print_results rm st2"
    using hit by (simp add: main_name_def)
  have fr: "main_name udp'' n'' name st2 = Some (r', st3) \<longrightarrow>
      queries st3 = queries st2 \<and> dc st3 = dc st2"
    using pr print_results_frame [of rm st2 r' st3] by simp
  have er: "collect_results udp n name st = Some (Inl e, st') \<longrightarrow> dc st' = dc st"
    using collect_results_cases [of udp n name st "Inl e" st'] by auto
  from hit pr fr er show ?thesis by blast
qed

lemma set_concat_mapD:
  "e \<in> set (concat (map (\<lambda>x. map (f x) (g x)) xs)) \<Longrightarrow> \<exists>x y. e = f x y"
  by auto

text \<open>
  C9. The record map that \<open>collect_results\<close> returns has exactly the keys CNAME, A,
  AAAA and MX, in this order. Every CNAME entry has the fields \<open>name\<close> (a record) and
  \<open>alias\<close>, the alias being the queried name; every A and AAAA entry has the fields
  \<open>name\<close> and \<open>address\<close>; every MX entry has the fields \<open>name\<close>, \<open>preference\<close> and
  \<open>exchange\<close>.
\<close>

theorem collect_results_shape:
  assumes "collect_results udp n name st = Some (Inr rm, st')"
  shows "map fst rm = [''CNAME'', ''A'', ''AAAA'', ''MX''] \<and>
         (\<forall>e\<in>set (results_get rm ''CNAME'').
            \<exists>answer. e = [(''name'', PRdata answer), (''alias'', PStr name)]) \<and>
         (\<forall>e\<in>set (results_get rm ''A'').
            \<exists>owner address. e = [(''name'', PName owner), (''address'', PStr address)]) \<and>
         (\<forall>e\<in>set (results_get rm ''AAAA'').
            \<exists>owner address. e = [(''name'', PName owner), (''address'', PStr address)]) \<and>
         (\<forall>e\<in>set (results_get rm ''MX'').
            \<exists>owner p x. e = [(''name'', PName owner), (''preference'', PInt p),
                              (''exchange'', PStr x)])"
proof -
  from collect_results_cases [OF assms] obtain response1 response2 response3 response4 where
    rm: "rm = [(''CNAME'', cname_entries name response1),
               (''A'', address_entries RT_A response2),
               (''AAAA'', address_entries RT_AAAA response3),
               (''MX'', mx_entries response4)]"
    by auto
  have c: "\<exists>answer. e = [(''name'', PRdata answer), (''alias'', PStr name)]"
    if "e \<in> set (cname_entries name response1)" for e
    using that unfolding cname_entries_def by auto
  have a: "\<exists>owner address. e = [(''name'', PName owner), (''address'', PStr address)]"
    if "e \<in> set (address_entries t response)" for e t response
    using that unfolding address_entries_def by auto
  have m: "\<exists>owner p x. e = [(''name'', PName owner), (''preference'', PInt p),
                              (''exchange'', PStr x)]"
    if "e \<in> set (mx_entries response4)" for e
    using that unfolding mx_entries_def by auto
  show ?thesis
    unfolding rm using c a m by (simp add: results_get_def)
qed

text \<open>
  Runs against the example zone, whatever the state they start in.
\<close>

lemma zone_lookup_host_A:
  "lookup udp_zone (Suc (Suc n)) ''host.example.'' RT_A st
     = Some (Inr (answer_msg [mk_rrset ''host.example.'' RT_A [mk_rd RT_A ''192.0.2.9'']]),
         sent [(''host.example.'', RT_A, ''198.41.0.4''),
               (''host.example.'', RT_A, ''199.9.14.201'')]
           [''Search longer than 3 seconds...waiting...''] st)"
  by (simp add: run_simps udp_zone_def sent_def)

lemma zone_lookup_soa:
  assumes "t \<noteq> ''alias.example.''" and "t = ''host.example.'' \<longrightarrow> q \<noteq> RT_A \<and> q \<noteq> RT_MX"
  shows "lookup udp_zone (Suc (Suc n)) t q st
     = Some (Inr (referral_msg
                    [mk_rrset ''example.'' RT_SOA
                       [mk_rd RT_SOA ''ns.example. admin.example. 1 2 3 4 5'']] []),
         sent [(t, q, ''198.41.0.4''), (t, q, ''199.9.14.201'')]
           [''Search longer than 3 seconds...waiting...''] st)"
  using assms by (simp add: run_simps udp_zone_def sent_def)

lemma zone_lookup_host_MX:
  "lookup udp_zone (Suc (Suc n)) ''host.example.'' RT_MX st
     = Some (Inr (answer_msg [mk_rrset ''host.example.'' RT_MX [mk_mx 10 ''mail.example.'']]),
         sent [(''host.example.'', RT_MX, ''198.41.0.4''),
               (''host.example.'', RT_MX, ''199.9.14.201'')]
           [''Search longer than 3 seconds...waiting...''] st)"
  by (simp add: run_simps udp_zone_def sent_def)

lemma sent_sel [simp]:
  "queries (sent qs ls st) = queries st @ qs"
  "out (sent qs ls st) = out st @ ls"
  "dc (sent qs ls st) = dc st"
  by (simp_all add: sent_def)

lemma sent_dc_update [simp]: "dc (st\<lparr>dc := d\<rparr>) = d"
  by simp

lemma entries_simps:
  "cname_entries name (referral_msg auth addl) = []"
  "address_entries t (referral_msg auth addl) = []"
  "mx_entries (referral_msg auth addl) = []"
  "address_entries RT_A (answer_msg [mk_rrset owner RT_A [mk_rd RT_A a]])
     = [[(''name'', PName owner), (''address'', PStr a)]]"
  "mx_entries (answer_msg [mk_rrset owner RT_MX [mk_mx p x]])
     = [[(''name'', PName owner), (''preference'', PInt p), (''exchange'', PStr x)]]"
  by (simp_all add: cname_entries_def address_entries_def mx_entries_def referral_msg_def
      answer_msg_def mk_rrset_def mk_rd_def mk_mx_def)

lemma initial_state_sel [simp]:
  "queries initial_state = []" "out initial_state = []" "dc_items (dc initial_state) k = None"
  by (simp_all add: initial_state_def)

lemmas zone_simps = zone_lookup_host_A zone_lookup_host_MX zone_lookup_soa entries_simps
  collect_results_def Let_def return_def dict_add_def

theorem collect_results_shape_witness:
  "\<exists>rm st'. collect_results udp_zone (Suc (Suc (Suc 0))) ''host.example.'' initial_state
       = Some (Inr rm, st') \<and>
     rm = [(''CNAME'', []),
           (''A'', [[(''name'', PName ''host.example.''), (''address'', PStr ''192.0.2.9'')]]),
           (''AAAA'', []),
           (''MX'', [[(''name'', PName ''host.example.''), (''preference'', PInt 10),
                      (''exchange'', PStr ''mail.example.'')]])] \<and>
     map fst rm = [''CNAME'', ''A'', ''AAAA'', ''MX''] \<and>
     (\<forall>e\<in>set (results_get rm ''MX'').
        \<exists>owner p x. e = [(''name'', PName owner), (''preference'', PInt p),
                          (''exchange'', PStr x)])"
proof -
  let ?rm = "[(''CNAME'', []),
           (''A'', [[(''name'', PName ''host.example.''), (''address'', PStr ''192.0.2.9'')]]),
           (''AAAA'', []),
           (''MX'', [[(''name'', PName ''host.example.''), (''preference'', PInt 10),
                      (''exchange'', PStr ''mail.example.'')]])]"
  let ?run = "collect_results udp_zone (Suc (Suc (Suc 0))) ''host.example.'' initial_state"
  have run: "?run = Some (Inr ?rm, snd (the ?run))"
    by (simp add: zone_simps del: lookup.simps)
  note shape = collect_results_shape [OF run]
  show ?thesis
  proof (intro exI conjI)
    show "?run = Some (Inr ?rm, snd (the ?run))" by (rule run)
    show "?rm = ?rm" by (rule refl)
    from shape show "map fst ?rm = [''CNAME'', ''A'', ''AAAA'', ''MX'']"
      by (rule conjunct1)
    from shape [THEN conjunct2, THEN conjunct2, THEN conjunct2, THEN conjunct2]
    show "\<forall>e\<in>set (results_get ?rm ''MX'').
        \<exists>owner p x. e = [(''name'', PName owner), (''preference'', PInt p),
                          (''exchange'', PStr x)]" .
  qed
qed

theorem cached_name_needs_no_query_witness:
  "\<exists>rm st1 r st2.
     main_lookup udp_zone (Suc (Suc (Suc 0))) ''host.example.'' initial_state
       = Some (Inr rm, st1) \<and>
     main_names udp_zone (Suc (Suc (Suc 0))) [''other.example.''] st1 = Some (r, st2) \<and>
     length (queries st1) = 8 \<and> length (queries st2) = 16 \<and>
     main_lookup udp_timeout 0 ''host.example.'' st2 = Some (Inr rm, st2)"
proof -
  let ?rm = "[(''CNAME'', []),
           (''A'', [[(''name'', PName ''host.example.''), (''address'', PStr ''192.0.2.9'')]]),
           (''AAAA'', []),
           (''MX'', [[(''name'', PName ''host.example.''), (''preference'', PInt 10),
                      (''exchange'', PStr ''mail.example.'')]])]"
  let ?first = "main_lookup udp_zone (Suc (Suc (Suc 0))) ''host.example.'' initial_state"
  let ?st1 = "snd (the ?first)"
  let ?later = "main_names udp_zone (Suc (Suc (Suc 0))) [''other.example.''] ?st1"
  let ?st2 = "snd (the ?later)"
  have a: "?first = Some (Inr ?rm, ?st1)"
    by (simp add: main_lookup_def zone_simps del: lookup.simps)
  have c1: "length (queries ?st1) = 8"
    by (simp add: main_lookup_def zone_simps del: lookup.simps)
  have b: "?later = Some (Inr (), ?st2)"
    by (simp add: main_lookup_def main_name_def print_results_def FORMATS_def results_get_def
        zone_simps del: lookup.simps)
  have c2: "length (queries ?st2) = 16"
    by (simp add: main_lookup_def main_name_def print_results_def FORMATS_def results_get_def
        zone_simps del: lookup.simps)
  note hit = cached_name_needs_no_query [OF a b, of udp_timeout 0, THEN conjunct1]
  show ?thesis
    by (intro exI conjI) (rule a b c1 c2 hit)+
qed

end
